theory Spec2Isabelle
  imports Complex_Main
begin

section \<open>Lab\_Agent.py: a reordering agent driven by price and stock\<close>

text \<open>
  The embedding follows \<^verbatim>\<open>src/Lab_Agent.py\<close> function by function.

  \<^item> Python \<^verbatim>\<open>int\<close> values (stock, quantities bought, the step count) are \<^typ>\<open>int\<close>.
  \<^item> Python \<^verbatim>\<open>float\<close> values are modelled at two levels. The simulation as a whole
    (environment, agent, loop) computes on \<^typ>\<open>real\<close> with exact arithmetic: the
    properties proved of a whole run are about the order of the updates, the lengths of
    the histories and the clamps. The two functions whose result depends on the rounding
    of single operations, \<^verbatim>\<open>select_from_dist\<close> and \<^verbatim>\<open>OrderingController.order\<close>, are
    modelled a second time on IEEE binary64 values, every operation rounded to nearest
    with ties to even, overflowing to an infinity, as CPython computes them
    (\<open>select_from_dist_double\<close>, \<open>order_double\<close>).
  \<^item> The process-wide generator of \<^verbatim>\<open>random\<close> is made explicit. Every call of
    \<^verbatim>\<open>do_action\<close> consumes one \<open>draw\<close>: the value \<^verbatim>\<open>random.random()\<close> returns inside
    \<^verbatim>\<open>select_from_dist\<close>, then the value \<^verbatim>\<open>random.gauss(0, noise_sd)\<close> returns. A run
    reads its draws from a \<open>source\<close>, one per step.
  \<^item> Exceptions are values: \<open>Inl\<close> of an \<open>error\<close>.
  \<^item> \<^verbatim>\<open>print\<close> calls and the plotting class have no effect on the state and are left out.
\<close>

subsection \<open>Errors and randomness\<close>

datatype error = RuntimeError | ZeroDivisionError | OverflowError | ValueError

record draw =
  random_random :: real
  random_gauss :: real

type_synonym source = "nat \<Rightarrow> draw"

text \<open>
  \<^verbatim>\<open>select_from_dist\<close>: the dictionary is walked in its iteration order, so it is an
  association list; \<open>ranreal\<close> is the number drawn on entry.
\<close>

fun select_from_dist :: "real \<Rightarrow> ('a \<times> real) list \<Rightarrow> error + 'a" where
  "select_from_dist ranreal [] = Inl RuntimeError"
| "select_from_dist ranreal ((item, prob) # rest) =
     (if ranreal < prob then Inr item
      else select_from_dist (ranreal - prob) rest)"

text \<open>The sum of the first \<open>k\<close> probabilities of a distribution.\<close>

definition cumulative :: "('a \<times> real) list \<Rightarrow> nat \<Rightarrow> real" where
  "cumulative item_prob_dist k = sum_list (map snd (take k item_prob_dist))"

text \<open>
  The sampler as the specification words it: the first position, in iteration order, whose
  cumulative probability strictly exceeds the drawn value \<open>u\<close>, if there is one.
\<close>

definition first_exceeding :: "real \<Rightarrow> ('a \<times> real) list \<Rightarrow> nat option" where
  "first_exceeding u item_prob_dist =
     find (\<lambda>k. u < cumulative item_prob_dist (Suc k)) [0..<length item_prob_dist]"

subsection \<open>Data\<close>

record Percept =
  price :: real
  stock :: int

text \<open>An action is the dictionary \<^verbatim>\<open>{"buy": tobuy}\<close>, read with \<^verbatim>\<open>action.get("buy", 0)\<close>.\<close>

type_synonym Action = "string \<rightharpoonup> int"

record SmartphoneEnvironment =
  time :: nat
  env_stock :: int
  env_price :: real
  stock_history :: "int list"
  price_history :: "real list"

record PriceMonitoringController =
  discount_threshold :: real

record InventoryMonitoringController =
  threshold :: int

text \<open>
  The price controller's back reference \<^verbatim>\<open>self.agent\<close> and the ordering controller's
  references to the two monitors all point into the agent that owns them, so the agent
  record holds the controllers and is passed where the source follows a reference.
\<close>

record SmartphoneAgent =
  average_price :: real
  buy_history :: "int list"
  total_spent :: real
  price_controller :: PriceMonitoringController
  inventory_controller :: InventoryMonitoringController

record Simulation =
  agent :: SmartphoneAgent
  environment :: SmartphoneEnvironment
  percept :: Percept

subsection \<open>Environment\<close>

definition price_delta :: "int list" where
  "price_delta = [10, -80, 20, -60, 5, 50, -100, 30, -20, 0]"

definition demand_dist :: "(int \<times> real) list" where
  "demand_dist = [(3, 0.2), (5, 0.3), (7, 0.3), (10, 0.2)]"

definition SmartphoneEnvironment_init :: SmartphoneEnvironment where
  "SmartphoneEnvironment_init =
     \<lparr>time = 0, env_stock = 50, env_price = 600,
      stock_history = [50], price_history = [600]\<rparr>"

definition initial_percept :: "SmartphoneEnvironment \<Rightarrow> Percept" where
  "initial_percept env = \<lparr>price = env_price env, stock = env_stock env\<rparr>"

definition do_action ::
  "draw \<Rightarrow> SmartphoneEnvironment \<Rightarrow> Action \<Rightarrow> error + (Percept \<times> SmartphoneEnvironment)" where
  "do_action d env action =
     (case select_from_dist (random_random d) demand_dist of
        Inl e \<Rightarrow> Inl e
      | Inr daily_sales \<Rightarrow>
          (let bought = (case action ''buy'' of None \<Rightarrow> 0 | Some b \<Rightarrow> b);
               stock1 = max 0 (env_stock env + bought - daily_sales);
               time1 = time env + 1;
               price1 = env_price env
                 + (real_of_int (price_delta ! (time1 mod length price_delta)) + random_gauss d);
               price2 = max 100 price1
           in Inr (\<lparr>price = price2, stock = stock1\<rparr>,
                   env\<lparr>time := time1, env_stock := stock1, env_price := price2,
                       stock_history := stock_history env @ [stock1],
                       price_history := price_history env @ [price2]\<rparr>)))"

subsection \<open>Controllers\<close>

definition PriceMonitoringController_init :: "real \<Rightarrow> PriceMonitoringController" where
  "PriceMonitoringController_init dt = \<lparr>discount_threshold = dt\<rparr>"

definition PriceMonitoringController_monitor ::
  "PriceMonitoringController \<Rightarrow> SmartphoneAgent \<Rightarrow> Percept \<Rightarrow> bool" where
  "PriceMonitoringController_monitor pc ag p =
     (let current_price = price p;
          discount_price_threshold = (1 - discount_threshold pc) * average_price ag
      in if current_price < discount_price_threshold then True else False)"

definition InventoryMonitoringController_init :: "int \<Rightarrow> InventoryMonitoringController" where
  "InventoryMonitoringController_init t = \<lparr>threshold = t\<rparr>"

definition InventoryMonitoringController_monitor ::
  "InventoryMonitoringController \<Rightarrow> Percept \<Rightarrow> bool" where
  "InventoryMonitoringController_monitor ic p = (stock p < threshold ic)"

text \<open>Python's \<^verbatim>\<open>int(x)\<close> on a finite float drops the fraction: it rounds towards zero.\<close>

definition py_int :: "real \<Rightarrow> int" where
  "py_int x = (if 0 \<le> x then \<lfloor>x\<rfloor> else \<lceil>x\<rceil>)"

text \<open>
  \<^verbatim>\<open>OrderingController.order\<close>. The average is read through
  \<^verbatim>\<open>self.price_controller.agent\<close>; a float division by zero raises.
\<close>

definition order :: "SmartphoneAgent \<Rightarrow> Percept \<Rightarrow> bool \<Rightarrow> bool \<Rightarrow> error + int" where
  "order ag p price_discount low_stock =
     (let current_price = price p in
      if price_discount \<and> \<not> low_stock then
        (if average_price ag = 0 then Inl ZeroDivisionError
         else
           (let discount_ratio = (average_price ag - current_price) / average_price ag;
                tobuy = py_int (15 * (1 + discount_ratio))
            in Inr tobuy))
      else if low_stock then Inr 10
      else Inr 0)"

subsection \<open>Agent\<close>

definition SmartphoneAgent_init :: SmartphoneAgent where
  "SmartphoneAgent_init =
     \<lparr>average_price = 600, buy_history = [], total_spent = 0,
      price_controller = PriceMonitoringController_init 0.2,
      inventory_controller = InventoryMonitoringController_init 10\<rparr>"

definition select_action ::
  "SmartphoneAgent \<Rightarrow> Percept \<Rightarrow> error + (Action \<times> SmartphoneAgent)" where
  "select_action ag p =
     (let current_price = price p;
          ag1 = ag\<lparr>average_price :=
                  average_price ag + (current_price - average_price ag) * 0.1\<rparr>;
          price_discount = PriceMonitoringController_monitor (price_controller ag1) ag1 p;
          low_stock = InventoryMonitoringController_monitor (inventory_controller ag1) p
      in case order ag1 p price_discount low_stock of
           Inl e \<Rightarrow> Inl e
         | Inr tobuy \<Rightarrow>
             Inr ([''buy'' \<mapsto> tobuy],
                  ag1\<lparr>total_spent := total_spent ag1 + real_of_int tobuy * current_price,
                      buy_history := buy_history ag1 @ [tobuy]\<rparr>))"

subsection \<open>Simulation\<close>

definition Simulation_init :: "SmartphoneAgent \<Rightarrow> SmartphoneEnvironment \<Rightarrow> Simulation" where
  "Simulation_init ag env =
     \<lparr>agent = ag, environment = env, percept = initial_percept env\<rparr>"

text \<open>The body of the loop of \<^verbatim>\<open>run\<close>: one decision, then one advance of the environment.\<close>

definition run_body :: "draw \<Rightarrow> Simulation \<Rightarrow> error + Simulation" where
  "run_body d sim =
     (case select_action (agent sim) (percept sim) of
        Inl e \<Rightarrow> Inl e
      | Inr (action, ag1) \<Rightarrow>
          (case do_action d (environment sim) action of
             Inl e \<Rightarrow> Inl e
           | Inr (p1, env1) \<Rightarrow> Inr \<lparr>agent = ag1, environment = env1, percept = p1\<rparr>))"

primrec run_loop :: "nat \<Rightarrow> source \<Rightarrow> Simulation \<Rightarrow> error + Simulation" where
  "run_loop 0 rs sim = Inr sim"
| "run_loop (Suc n) rs sim =
     (case run_body (rs 0) sim of
        Inl e \<Rightarrow> Inl e
      | Inr sim1 \<Rightarrow> run_loop n (\<lambda>i. rs (Suc i)) sim1)"

text \<open>\<^verbatim>\<open>range(steps)\<close> is empty for a step count that is zero or negative.\<close>

definition run :: "int \<Rightarrow> source \<Rightarrow> Simulation \<Rightarrow> error + Simulation" where
  "run steps rs sim = run_loop (nat steps) rs sim"

text \<open>The program's main block: a fresh agent and a fresh environment.\<close>

definition main_simulation :: Simulation where
  "main_simulation = Simulation_init SmartphoneAgent_init SmartphoneEnvironment_init"

text \<open>What \<^verbatim>\<open>random.random()\<close> promises of every draw: a value in \<open>[0, 1)\<close>.\<close>

definition valid_source :: "source \<Rightarrow> bool" where
  "valid_source rs = (\<forall>i. 0 \<le> random_random (rs i) \<and> random_random (rs i) < 1)"

text \<open>A source that repeats one draw.\<close>

definition constant_source :: "draw \<Rightarrow> source" where
  "constant_source d = (\<lambda>i. d)"

subsection \<open>IEEE double arithmetic\<close>

text \<open>
  A Python \<^verbatim>\<open>float\<close>: a finite value (a real that is a double), an infinity, or a NaN.
  The sign of zero is not modelled: none of the operations below tells \<open>-0.0\<close> from \<open>0.0\<close>
  (a division by either raises).
\<close>

datatype pyfloat = Finite real | PosInf | NegInf | NaN

text \<open>The largest finite double, \<^verbatim>\<open>(2 - 2^-52) * 2^1023\<close>.\<close>

definition max_double :: real where
  "max_double = (2 ^ 53 - 1) * 2 ^ 971"

text \<open>Rounding to the nearest integer, a tie going to the even neighbour.\<close>

definition round_even :: "real \<Rightarrow> int" where
  "round_even y =
     (let f = \<lfloor>y\<rfloor>; d = y - real_of_int f
      in if d < 1 / 2 then f
         else if 1 / 2 < d then f + 1
         else if even f then f else f + 1)"

text \<open>
  The spacing of the doubles around \<open>x\<close>: \<^verbatim>\<open>2^(e-52)\<close> where \<^verbatim>\<open>2^e <= |x| < 2^(e+1)\<close>,
  and the subnormal spacing \<^verbatim>\<open>2^-1074\<close> below \<^verbatim>\<open>2^-1022\<close>.
\<close>

definition ulp :: "real \<Rightarrow> real" where
  "ulp x = 2 powi (max \<lfloor>log 2 \<bar>x\<bar>\<rfloor> (- 1022) - 52)"

text \<open>
  \<open>fl x\<close> is the double an exact result \<open>x\<close> is rounded to; a result that rounds beyond
  the largest double becomes an infinity. \<open>fl\<close> of a decimal literal is the double that
  the literal denotes in the source.
\<close>

definition fl :: "real \<Rightarrow> pyfloat" where
  "fl x =
     (if x = 0 then Finite 0
      else
        (let r = real_of_int (round_even (x / ulp x)) * ulp x
         in if max_double < r then PosInf
            else if r < - max_double then NegInf
            else Finite r))"

text \<open>The operations the two functions use, on all floats.\<close>

fun fneg :: "pyfloat \<Rightarrow> pyfloat" where
  "fneg (Finite x) = Finite (- x)"
| "fneg PosInf = NegInf"
| "fneg NegInf = PosInf"
| "fneg NaN = NaN"

fun fadd :: "pyfloat \<Rightarrow> pyfloat \<Rightarrow> pyfloat" where
  "fadd (Finite x) (Finite y) = fl (x + y)"
| "fadd NaN y = NaN"
| "fadd x NaN = NaN"
| "fadd PosInf NegInf = NaN"
| "fadd NegInf PosInf = NaN"
| "fadd PosInf y = PosInf"
| "fadd NegInf y = NegInf"
| "fadd x PosInf = PosInf"
| "fadd x NegInf = NegInf"

definition fsub :: "pyfloat \<Rightarrow> pyfloat \<Rightarrow> pyfloat" where
  "fsub x y = fadd x (fneg y)"

fun fmul :: "pyfloat \<Rightarrow> pyfloat \<Rightarrow> pyfloat" where
  "fmul (Finite x) (Finite y) = fl (x * y)"
| "fmul NaN y = NaN"
| "fmul x NaN = NaN"
| "fmul (Finite x) PosInf = (if x = 0 then NaN else if 0 < x then PosInf else NegInf)"
| "fmul (Finite x) NegInf = (if x = 0 then NaN else if 0 < x then NegInf else PosInf)"
| "fmul PosInf (Finite y) = (if y = 0 then NaN else if 0 < y then PosInf else NegInf)"
| "fmul NegInf (Finite y) = (if y = 0 then NaN else if 0 < y then NegInf else PosInf)"
| "fmul PosInf PosInf = PosInf"
| "fmul PosInf NegInf = NegInf"
| "fmul NegInf PosInf = NegInf"
| "fmul NegInf NegInf = PosInf"

fun fquot :: "pyfloat \<Rightarrow> pyfloat \<Rightarrow> pyfloat" where
  "fquot (Finite x) (Finite y) = fl (x / y)"
| "fquot NaN y = NaN"
| "fquot x NaN = NaN"
| "fquot (Finite x) PosInf = Finite 0"
| "fquot (Finite x) NegInf = Finite 0"
| "fquot PosInf (Finite y) = (if 0 \<le> y then PosInf else NegInf)"
| "fquot NegInf (Finite y) = (if 0 \<le> y then NegInf else PosInf)"
| "fquot PosInf PosInf = NaN"
| "fquot PosInf NegInf = NaN"
| "fquot NegInf PosInf = NaN"
| "fquot NegInf NegInf = NaN"

text \<open>Python raises on a float division by zero, whatever the dividend.\<close>

definition fdiv :: "pyfloat \<Rightarrow> pyfloat \<Rightarrow> error + pyfloat" where
  "fdiv x y = (if y = Finite 0 then Inl ZeroDivisionError else Inr (fquot x y))"

text \<open>The comparison \<^verbatim>\<open><\<close>; it is false as soon as one side is a NaN.\<close>

fun flt :: "pyfloat \<Rightarrow> pyfloat \<Rightarrow> bool" where
  "flt (Finite x) (Finite y) = (x < y)"
| "flt NaN y = False"
| "flt x NaN = False"
| "flt x NegInf = False"
| "flt PosInf y = False"
| "flt NegInf y = True"
| "flt x PosInf = True"

text \<open>
  \<^verbatim>\<open>int(x)\<close> on a float: towards zero on a finite value, \<^verbatim>\<open>OverflowError\<close> on an infinity,
  \<^verbatim>\<open>ValueError\<close> on a NaN.
\<close>

fun py_int_double :: "pyfloat \<Rightarrow> error + int" where
  "py_int_double (Finite x) = Inr (py_int x)"
| "py_int_double PosInf = Inl OverflowError"
| "py_int_double NegInf = Inl OverflowError"
| "py_int_double NaN = Inl ValueError"

text \<open>
  \<^verbatim>\<open>select_from_dist\<close> on doubles: \<^verbatim>\<open>ranreal -= prob\<close> rounds at every entry.
\<close>

fun select_from_dist_double :: "pyfloat \<Rightarrow> ('a \<times> pyfloat) list \<Rightarrow> error + 'a" where
  "select_from_dist_double ranreal [] = Inl RuntimeError"
| "select_from_dist_double ranreal ((item, prob) # rest) =
     (if flt ranreal prob then Inr item
      else select_from_dist_double (fsub ranreal prob) rest)"

text \<open>
  \<^verbatim>\<open>OrderingController.order\<close> on doubles, given the two values it reads: the agent's
  average and the percept's price. \<open>15 * (1 + discount_ratio)\<close> is four rounded
  operations, and \<^verbatim>\<open>int\<close> raises on an infinite product.
\<close>

definition order_double :: "pyfloat \<Rightarrow> pyfloat \<Rightarrow> bool \<Rightarrow> bool \<Rightarrow> error + int" where
  "order_double average current_price price_discount low_stock =
     (if price_discount \<and> \<not> low_stock then
        (case fdiv (fsub average current_price) average of
           Inl e \<Rightarrow> Inl e
         | Inr discount_ratio \<Rightarrow>
             py_int_double (fmul (Finite 15) (fadd (Finite 1) discount_ratio)))
      else if low_stock then Inr 10
      else Inr 0)"

subsection \<open>The invariant of the loop\<close>

text \<open>
  What holds of a simulation between two iterations of \<^verbatim>\<open>run\<close>: the environment has one
  snapshot more than the agent has decisions, the percept carries the newest price, the
  money spent is the sum of quantity times the price of the same index, and the clamps
  hold of every entry and of the running average.
\<close>

definition sim_inv :: "Simulation \<Rightarrow> bool" where
  "sim_inv sim =
     (length (price_history (environment sim)) = Suc (length (buy_history (agent sim)))
      \<and> length (stock_history (environment sim)) = Suc (length (buy_history (agent sim)))
      \<and> price (percept sim) = last (price_history (environment sim))
      \<and> total_spent (agent sim)
          = (\<Sum>i<length (buy_history (agent sim)).
               real_of_int (buy_history (agent sim) ! i) * price_history (environment sim) ! i)
      \<and> (\<forall>x \<in> set (stock_history (environment sim)). 0 \<le> x)
      \<and> (\<forall>x \<in> set (price_history (environment sim)). 100 \<le> x)
      \<and> 100 \<le> average_price (agent sim))"

subsection \<open>A concrete run\<close>

text \<open>
  A run on which prices fall fast: every draw selects a demand of 7 and a noise of -200.
  \<open>falling_1\<close>, \<open>falling_2\<close> and \<open>falling_3\<close> are the simulation after one, two and three
  steps from the program's initial state; the third price would be -120 and is clamped.
\<close>

definition falling_draw :: draw where
  "falling_draw = \<lparr>random_random = 0.5, random_gauss = - 200\<rparr>"

definition falling_1 :: Simulation where
  "falling_1 =
     \<lparr>agent = SmartphoneAgent_init\<lparr>average_price := 600, total_spent := 0,
                                   buy_history := [0]\<rparr>,
      environment = \<lparr>time = 1, env_stock = 43, env_price = 320,
                     stock_history = [50, 43], price_history = [600, 320]\<rparr>,
      percept = \<lparr>price = 320, stock = 43\<rparr>\<rparr>"

definition falling_2 :: Simulation where
  "falling_2 =
     \<lparr>agent = SmartphoneAgent_init\<lparr>average_price := 572, total_spent := 6720,
                                   buy_history := [0, 21]\<rparr>,
      environment = \<lparr>time = 2, env_stock = 57, env_price = 140,
                     stock_history = [50, 43, 57], price_history = [600, 320, 140]\<rparr>,
      percept = \<lparr>price = 140, stock = 57\<rparr>\<rparr>"

definition falling_3 :: Simulation where
  "falling_3 =
     \<lparr>agent = SmartphoneAgent_init\<lparr>average_price := 528.8, total_spent := 10360,
                                   buy_history := [0, 21, 26]\<rparr>,
      environment = \<lparr>time = 3, env_stock = 76, env_price = 100,
                     stock_history = [50, 43, 57, 76],
                     price_history = [600, 320, 140, 100]\<rparr>,
      percept = \<lparr>price = 100, stock = 76\<rparr>\<rparr>"

section \<open>Monitors and the ordering decision\<close>

text \<open>
  Claim C8. The inventory monitor is the strict comparison \<open>stock < threshold\<close>, for every
  percept and every threshold; with threshold 10 it is false at stock 10 and true at
  stock 9.
\<close>

theorem inventory_monitor_strict:
  "InventoryMonitoringController_monitor ic p = (stock p < threshold ic)
   \<and> InventoryMonitoringController_monitor (InventoryMonitoringController_init t) p
       = (stock p < t)
   \<and> InventoryMonitoringController_monitor (InventoryMonitoringController_init 10)
       \<lparr>price = pr, stock = 10\<rparr> = False
   \<and> InventoryMonitoringController_monitor (InventoryMonitoringController_init 10)
       \<lparr>price = pr, stock = 9\<rparr> = True"
  by (simp add: InventoryMonitoringController_monitor_def InventoryMonitoringController_init_def)

text \<open>
  Claim C4. Called with both flags true, the ordering decision returns the fixed restock
  quantity 10, whatever the percept and the average are (the average may even be zero: the
  discount branch, and its division, is not entered). In particular at price 500, stock 5
  and average 600. The same holds in double arithmetic, for every float average and
  price: no arithmetic is done on this path.
\<close>

theorem order_low_stock_wins:
  "order ag p True True = Inr 10
   \<and> order (SmartphoneAgent_init\<lparr>average_price := 600\<rparr>) \<lparr>price = 500, stock = 5\<rparr> True True
       = Inr 10
   \<and> order_double average current_price True True = Inr 10
   \<and> order_double (Finite 600) (Finite 500) True True = Inr 10"
  by (simp add: order_def order_double_def)

text \<open>The price monitor, without its local names.\<close>

lemma price_monitor_iff:
  "PriceMonitoringController_monitor pc ag p
     = (price p < (1 - discount_threshold pc) * average_price ag)"
  by (simp add: PriceMonitoringController_monitor_def)

section \<open>Rounding to double\<close>

text \<open>The exponent of a value is fixed by the two powers of two around it.\<close>

lemma floor_log2_eq:
  assumes "2 powi e \<le> \<bar>x\<bar>" and "\<bar>x\<bar> < 2 powi (e + 1)"
  shows "\<lfloor>log 2 \<bar>x\<bar>\<rfloor> = e"
proof -
  have pos: "0 < \<bar>x\<bar>"
    using assms(1) by (smt (verit) zero_less_power_int)
  have p1: "(2::real) powr real_of_int e = 2 powi e"
    by (rule powr_real_of_int') simp_all
  have "(2::real) powr real_of_int (e + 1) = 2 powi (e + 1)"
    by (rule powr_real_of_int') simp_all
  then have p2: "(2::real) powr (real_of_int e + 1) = 2 powi (e + 1)"
    by simp
  have "(2::real) powr real_of_int e \<le> \<bar>x\<bar> \<and> \<bar>x\<bar> < 2 powr (real_of_int e + 1)"
    using assms by (simp only: p1 p2)
  then show ?thesis
    using pos floor_log_eq_powr_iff[of "\<bar>x\<bar>" 2 e] by simp
qed

lemma ulp_eval:
  assumes "2 powi e \<le> \<bar>x\<bar>" and "\<bar>x\<bar> < 2 powi (e + 1)"
  shows "ulp x = 2 powi (max e (- 1022) - 52)"
  by (simp add: ulp_def floor_log2_eq[OF assms])

lemma ulp_pos: "0 < ulp x"
  by (simp add: ulp_def)

lemma round_even_nonneg: "0 \<le> y \<Longrightarrow> 0 \<le> round_even y"
  by (auto simp: round_even_def Let_def)

lemma round_even_le_int:
  assumes "y \<le> real_of_int n"
  shows "round_even y \<le> n"
proof (cases "y = real_of_int n")
  case True
  then show ?thesis by (simp add: round_even_def)
next
  case False
  with assms have "y < real_of_int n" by simp
  then have "\<lfloor>y\<rfloor> < n" by (simp add: floor_less_iff)
  moreover have "\<lfloor>y\<rfloor> \<le> n" using assms by (simp add: floor_le_iff)
  ultimately show ?thesis
    by (auto simp: round_even_def Let_def)
qed

lemma fl_not_NaN: "fl x \<noteq> NaN"
  by (simp add: fl_def Let_def)

lemma ulp_mono_ratio:
  assumes "0 < x" and "x \<le> a"
  shows "\<exists>n. ulp a = ulp x * 2 ^ n"
proof -
  have "log 2 x \<le> log 2 a" using assms by simp
  then have "\<lfloor>log 2 x\<rfloor> \<le> \<lfloor>log 2 a\<rfloor>" by (rule floor_mono)
  then have le: "max \<lfloor>log 2 \<bar>x\<bar>\<rfloor> (- 1022) - 52 \<le> max \<lfloor>log 2 \<bar>a\<bar>\<rfloor> (- 1022) - 52"
    using assms by simp
  define kx where "kx = max \<lfloor>log 2 \<bar>x\<bar>\<rfloor> (- 1022) - 52"
  define ka where "ka = max \<lfloor>log 2 \<bar>a\<bar>\<rfloor> (- 1022) - 52"
  have "ka = kx + int (nat (ka - kx))" using le by (simp add: kx_def ka_def)
  then have "(2::real) powi ka = 2 powi kx * 2 powi int (nat (ka - kx))"
    by (metis power_int_add zero_neq_numeral)
  also have "(2::real) powi int (nat (ka - kx)) = 2 ^ nat (ka - kx)"
    by (rule power_int_of_nat)
  finally have "(2::real) powi ka = 2 powi kx * 2 ^ nat (ka - kx)" .
  moreover have "ulp a = 2 powi ka" and "ulp x = 2 powi kx"
    by (simp_all only: ulp_def ka_def kx_def)
  ultimately have "ulp a = ulp x * 2 ^ nat (ka - kx)"
    by (simp only:)
  then show ?thesis ..
qed

text \<open>
  Rounding does not step over a double: a non-negative value below a double \<open>a\<close> rounds
  to a finite value that is still non-negative and at most \<open>a\<close>.
\<close>

lemma fl_le_double:
  assumes a: "fl a = Finite a" and x0: "0 \<le> x" and xa: "x \<le> a"
  shows "\<exists>r. fl x = Finite r \<and> 0 \<le> r \<and> r \<le> a"
proof (cases "x = 0")
  case True
  then show ?thesis using x0 xa by (simp add: fl_def)
next
  case False
  then have xpos: "0 < x" using x0 by simp
  then have apos: "0 < a" using xa by simp
  define m where "m = round_even (a / ulp a)"
  from a apos have am: "real_of_int m * ulp a = a" and amax: "a \<le> max_double"
    by (auto simp: fl_def Let_def m_def split: if_splits)
  from ulp_mono_ratio[OF xpos xa] obtain n where n: "ulp a = ulp x * 2 ^ n" by blast
  have "a / ulp x = real_of_int m * 2 ^ n"
    using am n ulp_pos[of x] by (simp add: field_simps)
  then have aint: "a / ulp x = real_of_int (m * 2 ^ n)" by simp
  have "x / ulp x \<le> a / ulp x"
    using xa ulp_pos[of x] by (simp add: divide_right_mono)
  then have "round_even (x / ulp x) \<le> m * 2 ^ n"
    unfolding aint by (rule round_even_le_int)
  then have "real_of_int (round_even (x / ulp x)) \<le> real_of_int (m * 2 ^ n)"
    by (simp only: of_int_le_iff)
  then have "real_of_int (round_even (x / ulp x)) * ulp x \<le> real_of_int (m * 2 ^ n) * ulp x"
    using ulp_pos[of x] by (simp add: mult_right_mono)
  also have "\<dots> = a"
    using aint ulp_pos[of x] by (simp add: field_simps)
  finally have ra: "real_of_int (round_even (x / ulp x)) * ulp x \<le> a" .
  have "0 \<le> x / ulp x" using x0 ulp_pos[of x] by simp
  then have "0 \<le> round_even (x / ulp x)" by (rule round_even_nonneg)
  then have r0: "0 \<le> real_of_int (round_even (x / ulp x)) * ulp x"
    using ulp_pos[of x] by simp
  have "0 \<le> max_double" by (simp add: max_double_def)
  with ra r0 amax False show ?thesis
    by (auto simp: fl_def Let_def)
qed

lemma double_consts:
  "fl 1 = Finite 1" "fl 2 = Finite 2" "fl 15 = Finite 15" "fl 32 = Finite 32"
     apply (simp add: fl_def Let_def ulp_eval[of 0] round_even_def max_double_def power_int_minus)
    apply (simp add: fl_def Let_def ulp_eval[of 1] round_even_def max_double_def power_int_minus)
   apply (simp add: fl_def Let_def ulp_eval[of 3] round_even_def max_double_def power_int_minus)
  apply (simp add: fl_def Let_def ulp_eval[of 5] round_even_def max_double_def power_int_minus)
  done

text \<open>Evaluating \<open>fl\<close> at a value whose exponent \<open>e\<close> is known.\<close>

lemma fl_eval:
  assumes "2 powi e \<le> \<bar>x\<bar>" and "\<bar>x\<bar> < 2 powi (e + 1)"
  shows "fl x =
     (let r = real_of_int (round_even (x / 2 powi (max e (- 1022) - 52)))
                * 2 powi (max e (- 1022) - 52)
      in if max_double < r then PosInf
         else if r < - max_double then NegInf
         else Finite r)"
proof -
  have "x \<noteq> 0" using assms(1) by (smt (verit) zero_less_power_int abs_zero)
  then show ?thesis
    by (simp add: fl_def ulp_eval[OF assms])
qed

lemmas fl_steps = round_even_def Let_def max_double_def power_int_minus

lemma fquot_not_NaN: "x \<noteq> NaN \<Longrightarrow> fquot x (Finite a) \<noteq> NaN"
  by (cases x) (simp_all add: fl_not_NaN)

lemma fadd_not_NaN: "y \<noteq> NaN \<Longrightarrow> fadd (Finite c) y \<noteq> NaN"
  by (cases y) (simp_all add: fl_not_NaN)

lemma fmul_not_NaN: "c \<noteq> 0 \<Longrightarrow> y \<noteq> NaN \<Longrightarrow> fmul (Finite c) y \<noteq> NaN"
  by (cases y) (simp_all add: fl_not_NaN)

lemma scaled_not_NaN:
  "fmul (Finite 15) (fadd (Finite 1) (fquot (fsub (Finite a) (Finite p)) (Finite a)))
     \<noteq> NaN"
proof -
  have "fsub (Finite a) (Finite p) \<noteq> NaN" by (simp add: fsub_def fl_not_NaN)
  then show ?thesis
    by (intro fmul_not_NaN fadd_not_NaN fquot_not_NaN) simp_all
qed

section \<open>The ordering decision in double arithmetic\<close>

lemma order_600_450: "order_double (Finite 600) (Finite 450) True False = Inr 18"
  by (simp add: order_double_def fdiv_def fsub_def py_int_def
      fl_eval[of 7] fl_eval[of "- 2"] fl_eval[of 0] fl_eval[of 4] fl_steps)

lemma order_600_200: "order_double (Finite 600) (Finite 200) True False = Inr 24"
  by (simp add: order_double_def fdiv_def fsub_def py_int_def
      fl_eval[of 8] fl_eval[of "- 1"] fl_eval[of 0] fl_eval[of 4] fl_steps)

lemma order_600_1300: "order_double (Finite 600) (Finite 1300) True False = Inr (- 2)"
  by (simp add: order_double_def fdiv_def fsub_def py_int_def
      fl_eval[of 9] fl_eval[of 0] fl_eval[of "- 3"] fl_eval[of 1] fl_steps)

lemma tiny_double: "fl (1 / 2 ^ 1074) = Finite (1 / 2 ^ 1074)"
  by (simp add: fl_eval[of "- 1074"] fl_steps)

lemma big_double: "fl (2 ^ 1023) = Finite (2 ^ 1023)"
  by (simp add: fl_eval[of 1023] fl_steps)

lemma order_overflow:
  "order_double (Finite (1 / 2 ^ 1074)) (Finite (2 ^ 1023)) True False = Inl OverflowError"
  by (simp add: order_double_def fdiv_def fsub_def
      fl_eval[of 1022] fl_eval[of 2097] fl_steps)

lemma double_600: "fl 600 = Finite 600"
  by (simp add: fl_eval[of 9] fl_steps)

text \<open>
  Claim C5, as stated, fails in three ways. The quantity is computed in doubles: at
  average 600 and price 200 the rounded product is \<open>24.999999999999996\<close> and the code
  returns 24, where \<open>floor(15 * (1 + discount_ratio))\<close> is 25. \<^verbatim>\<open>int\<close> rounds towards zero
  and the flags are arguments of \<^verbatim>\<open>order\<close>: at average 600 and price 1300 the code returns
  \<open>-2\<close>, the floor is \<open>-3\<close>. And with the smallest positive double as average and the
  price \<^verbatim>\<open>2^1023\<close> the product is infinite and \<^verbatim>\<open>int\<close> raises \<^verbatim>\<open>OverflowError\<close>.
\<close>

theorem order_double_not_floor:
  "order_double (Finite 600) (Finite 200) True False = Inr 24
   \<and> \<lfloor>15 * (1 + (600 - 200) / (600::real))\<rfloor> = 25
   \<and> order_double (Finite 600) (Finite 1300) True False = Inr (- 2)
   \<and> \<lfloor>15 * (1 + (600 - 1300) / (600::real))\<rfloor> = - 3
   \<and> fl (1 / 2 ^ 1074) = Finite (1 / 2 ^ 1074) \<and> (0::real) < 1 / 2 ^ 1074
   \<and> fl (2 ^ 1023) = Finite (2 ^ 1023)
   \<and> order_double (Finite (1 / 2 ^ 1074)) (Finite (2 ^ 1023)) True False
         = Inl OverflowError"
  using order_600_200 order_600_1300 tiny_double big_double order_overflow
  by simp

text \<open>
  Claim C5, amended. With \<open>price_discount\<close> true, \<open>low_stock\<close> false and a finite non-zero
  average \<open>a\<close>, \<^verbatim>\<open>order\<close> evaluates \<open>15 * (1 + (a - p) / a)\<close> in double arithmetic, each of
  the four operations rounded, and returns that value rounded towards zero; it raises
  \<^verbatim>\<open>OverflowError\<close> when the value is infinite, and the value is never a NaN. When \<open>a\<close> is
  a double and \<open>0 \<le> p \<le> a\<close>, the four results \<open>d\<close>, \<open>r\<close>, \<open>s\<close>, \<open>v\<close> are finite,
  \<open>0 \<le> v \<le> 32\<close>, and the result is the floor of \<open>v\<close>. At price 450 and average 600 the
  result is 18; at price 200 and average 600 it is 24.
\<close>

theorem order_double_scaling:
  assumes "a \<noteq> 0"
  shows "order_double (Finite a) (Finite p) True False
           = (case fmul (Finite 15)
                     (fadd (Finite 1) (fquot (fsub (Finite a) (Finite p)) (Finite a))) of
                Finite v \<Rightarrow> Inr (if 0 \<le> v then \<lfloor>v\<rfloor> else \<lceil>v\<rceil>)
              | PosInf \<Rightarrow> Inl OverflowError
              | NegInf \<Rightarrow> Inl OverflowError
              | NaN \<Rightarrow> Inl ValueError)
   \<and> fmul (Finite 15) (fadd (Finite 1) (fquot (fsub (Finite a) (Finite p)) (Finite a)))
         \<noteq> NaN
   \<and> (fl a = Finite a \<and> 0 \<le> p \<and> p \<le> a \<longrightarrow>
        (\<exists>d r s v. fl (a - p) = Finite d \<and> fl (d / a) = Finite r
            \<and> fl (1 + r) = Finite s \<and> fl (15 * s) = Finite v
            \<and> 0 \<le> v \<and> v \<le> 32
            \<and> order_double (Finite a) (Finite p) True False = Inr \<lfloor>v\<rfloor>))
   \<and> order_double (Finite 600) (Finite 450) True False = Inr 18
   \<and> order_double (Finite 600) (Finite 200) True False = Inr 24"
proof (intro conjI impI)
  show "order_double (Finite a) (Finite p) True False
           = (case fmul (Finite 15)
                     (fadd (Finite 1) (fquot (fsub (Finite a) (Finite p)) (Finite a))) of
                Finite v \<Rightarrow> Inr (if 0 \<le> v then \<lfloor>v\<rfloor> else \<lceil>v\<rceil>)
              | PosInf \<Rightarrow> Inl OverflowError
              | NegInf \<Rightarrow> Inl OverflowError
              | NaN \<Rightarrow> Inl ValueError)"
    using assms
    by (simp add: order_double_def fdiv_def py_int_def split: pyfloat.splits)
  show "fmul (Finite 15) (fadd (Finite 1) (fquot (fsub (Finite a) (Finite p)) (Finite a)))
         \<noteq> NaN"
    by (rule scaled_not_NaN)
  show "order_double (Finite 600) (Finite 450) True False = Inr 18"
    by (rule order_600_450)
  show "order_double (Finite 600) (Finite 200) True False = Inr 24"
    by (rule order_600_200)
  assume h: "fl a = Finite a \<and> 0 \<le> p \<and> p \<le> a"
  then have a: "fl a = Finite a" and p0: "0 \<le> p" and pa: "p \<le> a" by simp_all
  have apos: "0 < a" using assms p0 pa by simp
  from fl_le_double[OF a, of "a - p"] p0 pa
  obtain d where d: "fl (a - p) = Finite d" and d0: "0 \<le> d" and da: "d \<le> a" by auto
  have "0 \<le> d / a" and "d / a \<le> 1" using d0 da apos by simp_all
  from fl_le_double[OF double_consts(1) this]
  obtain r where r: "fl (d / a) = Finite r" and r0: "0 \<le> r" and r1: "r \<le> 1" by blast
  have "0 \<le> 1 + r" and "1 + r \<le> 2" using r0 r1 by simp_all
  from fl_le_double[OF double_consts(2) this]
  obtain s where s: "fl (1 + r) = Finite s" and s0: "0 \<le> s" and s2: "s \<le> 2" by blast
  have "0 \<le> 15 * s" and "15 * s \<le> 32" using s0 s2 by simp_all
  from fl_le_double[OF double_consts(4) this]
  obtain v where v: "fl (15 * s) = Finite v" and v0: "0 \<le> v" and v32: "v \<le> 32" by blast
  have "order_double (Finite a) (Finite p) True False = Inr \<lfloor>v\<rfloor>"
    using assms d r s v v0
    by (simp add: order_double_def fdiv_def fsub_def py_int_def)
  with d r s v v0 v32
  show "\<exists>d r s v. fl (a - p) = Finite d \<and> fl (d / a) = Finite r
            \<and> fl (1 + r) = Finite s \<and> fl (15 * s) = Finite v
            \<and> 0 \<le> v \<and> v \<le> 32
            \<and> order_double (Finite a) (Finite p) True False = Inr \<lfloor>v\<rfloor>"
    by blast
qed

theorem order_double_scaling_witness:
  "(600::real) \<noteq> 0 \<and> fl 600 = Finite 600 \<and> (0::real) \<le> 450 \<and> (450::real) \<le> 600
   \<and> fl (600 - 450) = Finite 150 \<and> fl (150 / 600) = Finite (1 / 4)
   \<and> fl (1 + 1 / 4) = Finite (5 / 4) \<and> fl (15 * (5 / 4)) = Finite (75 / 4)
   \<and> order_double (Finite 600) (Finite 450) True False = Inr \<lfloor>75 / 4 :: real\<rfloor>
   \<and> \<lfloor>75 / 4 :: real\<rfloor> = 18"
proof -
  have nz: "(600::real) \<noteq> 0" by simp
  have e: "fl (600 - 450) = Finite 150" "fl (150 / 600) = Finite (1 / 4)"
    "fl (1 + 1 / 4) = Finite (5 / 4)" "fl (15 * (5 / 4)) = Finite (75 / 4)"
    by (simp_all add: fl_eval[of 7] fl_eval[of "- 2"] fl_eval[of 0] fl_eval[of 4] fl_steps)
  from order_double_scaling[OF nz, of 450] double_600
  obtain d r s v where f1: "fl (600 - 450) = Finite d" and f2: "fl (d / 600) = Finite r"
    and f3: "fl (1 + r) = Finite s" and f4: "fl (15 * s) = Finite v"
    and f5: "order_double (Finite 600) (Finite 450) True False = Inr \<lfloor>v\<rfloor>"
    by auto
  from f1 have d: "d = 150" unfolding e(1) by simp
  from f2 have r: "r = 1 / 4" unfolding d e(2) by simp
  from f3 have s: "s = 5 / 4" unfolding r e(3) by simp
  from f4 have v: "v = 75 / 4" unfolding s e(4) by simp
  from f5 have "order_double (Finite 600) (Finite 450) True False = Inr \<lfloor>75 / 4 :: real\<rfloor>"
    unfolding v .
  moreover have "\<lfloor>75 / 4 :: real\<rfloor> = 18" by simp
  ultimately show ?thesis
    using nz double_600 e by simp
qed

section \<open>The agent's step\<close>

text \<open>
  Claim C6. For an agent whose price controller has the threshold 0.2 (as the constructor
  sets it) and every percept, \<^verbatim>\<open>select_action\<close> decides with the flag
  \<open>price < (1 - 0.2) * updated_average\<close>, where \<open>updated_average\<close> is the average after the
  smoothing step \<open>average + (price - average) * 0.1\<close>; the same updated average is the one
  \<^verbatim>\<open>order\<close> divides by and the one the agent keeps.
\<close>

theorem select_action_updated_average:
  assumes "discount_threshold (price_controller ag) = 0.2"
  shows "select_action ag p =
     (let updated_average = average_price ag + (price p - average_price ag) * 0.1;
          price_discount = (price p < (1 - 0.2) * updated_average);
          low_stock = InventoryMonitoringController_monitor (inventory_controller ag) p
      in case order (ag\<lparr>average_price := updated_average\<rparr>) p price_discount low_stock of
           Inl e \<Rightarrow> Inl e
         | Inr tobuy \<Rightarrow>
             Inr ([''buy'' \<mapsto> tobuy],
                  ag\<lparr>average_price := updated_average,
                     total_spent := total_spent ag + real_of_int tobuy * price p,
                     buy_history := buy_history ag @ [tobuy]\<rparr>))"
proof -
  have mon: "PriceMonitoringController_monitor (price_controller ag) ag1 p
               = (price p < (1 - 0.2) * average_price ag1)" for ag1
    by (simp only: price_monitor_iff assms)
  show ?thesis
    by (simp add: select_action_def Let_def mon cong: sum.case_cong)
qed

text \<open>
  At average 600, price 475 and stock 50 the two readings differ: against the average
  before the update (threshold 480) the price is a discount, against the updated average
  587.5 (threshold 470) it is not, and the agent orders nothing.
\<close>

theorem select_action_updated_average_witness:
  "discount_threshold (price_controller SmartphoneAgent_init) = 0.2
   \<and> PriceMonitoringController_monitor (price_controller SmartphoneAgent_init)
        SmartphoneAgent_init \<lparr>price = 475, stock = 50\<rparr>
   \<and> select_action SmartphoneAgent_init \<lparr>price = 475, stock = 50\<rparr>
        = Inr ([''buy'' \<mapsto> 0],
               SmartphoneAgent_init\<lparr>average_price := 587.5, total_spent := 0,
                                    buy_history := [0]\<rparr>)"
proof -
  have th: "discount_threshold (price_controller SmartphoneAgent_init) = 0.2"
    by (simp add: SmartphoneAgent_init_def PriceMonitoringController_init_def)
  have pre: "PriceMonitoringController_monitor (price_controller SmartphoneAgent_init)
        SmartphoneAgent_init \<lparr>price = 475, stock = 50\<rparr>"
    by (simp add: price_monitor_iff SmartphoneAgent_init_def PriceMonitoringController_init_def)
  have "select_action SmartphoneAgent_init \<lparr>price = 475, stock = 50\<rparr>
        = Inr ([''buy'' \<mapsto> 0],
               SmartphoneAgent_init\<lparr>average_price := 587.5, total_spent := 0,
                                    buy_history := [0]\<rparr>)"
    using select_action_updated_average[OF th, of "\<lparr>price = 475, stock = 50\<rparr>"]
    by (simp add: SmartphoneAgent_init_def InventoryMonitoringController_init_def
        InventoryMonitoringController_monitor_def order_def)
  with th pre show ?thesis by blast
qed

section \<open>Sampling from a distribution\<close>

lemma find_map_comp: "find P (map f xs) = map_option f (find (\<lambda>x. P (f x)) xs)"
  by (induction xs) simp_all

lemma find_upt_Suc:
  "find P [0..<Suc n]
     = (if P 0 then Some 0 else map_option Suc (find (\<lambda>k. P (Suc k)) [0..<n]))"
proof -
  have "[0..<Suc n] = 0 # map Suc [0..<n]"
    by (simp add: upt_conv_Cons map_Suc_upt del: upt_Suc)
  then show ?thesis
    by (simp add: find_map_comp del: upt_Suc)
qed

lemma cumulative_Cons: "cumulative ((x, pr) # rest) (Suc k) = pr + cumulative rest k"
  by (simp add: cumulative_def)

lemma cumulative_0: "cumulative d 0 = 0"
  by (simp add: cumulative_def)

lemma cumulative_all: "cumulative d (length d) = sum_list (map snd d)"
  by (simp add: cumulative_def)

lemma cumulative_le_total:
  assumes "\<forall>pr \<in> snd ` set d. 0 \<le> pr"
  shows "cumulative d k \<le> sum_list (map snd d)"
proof -
  have "sum_list (map snd d) = cumulative d k + sum_list (map snd (drop k d))"
    unfolding cumulative_def
    by (metis append_take_drop_id map_append sum_list_append)
  moreover have "0 \<le> sum_list (map snd (drop k d))"
    using assms by (intro sum_list_nonneg) (auto dest: in_set_dropD)
  ultimately show ?thesis by simp
qed

lemma first_exceeding_Cons:
  "first_exceeding u ((x, pr) # rest)
     = (if u < pr then Some 0 else map_option Suc (first_exceeding (u - pr) rest))"
proof -
  have "(\<lambda>k. u < pr + cumulative rest (Suc k)) = (\<lambda>k. u - pr < cumulative rest (Suc k))"
    by (auto simp: fun_eq_iff)
  then show ?thesis
    unfolding first_exceeding_def length_Cons find_upt_Suc
    by (simp add: cumulative_Cons cumulative_0)
qed

lemma select_from_dist_find:
  "select_from_dist u d
     = (case first_exceeding u d of
          None \<Rightarrow> Inl RuntimeError
        | Some k \<Rightarrow> Inr (fst (d ! k)))"
proof (induction d arbitrary: u)
  case Nil
  show ?case by (simp add: first_exceeding_def)
next
  case (Cons a rest)
  obtain x pr where a: "a = (x, pr)" by (cases a)
  show ?case
    unfolding a first_exceeding_Cons
    by (simp add: Cons.IH split: option.splits)
qed

lemma first_exceeding_None:
  "first_exceeding u d = None \<longleftrightarrow> (\<forall>k<length d. \<not> u < cumulative d (Suc k))"
  by (auto simp: first_exceeding_def find_None_iff)

lemma first_exceeding_Some:
  "first_exceeding u d = Some k \<longleftrightarrow>
     (k < length d \<and> u < cumulative d (Suc k) \<and> (\<forall>j<k. \<not> u < cumulative d (Suc j)))"
  unfolding first_exceeding_def find_Some_iff
  by auto

text \<open>
  The walk in exact arithmetic, where no subtraction rounds: \<open>select_from_dist\<close> returns
  the item at the first position whose cumulative probability strictly exceeds \<open>u\<close>, and
  raises exactly when no cumulative probability exceeds \<open>u\<close>. With \<open>u < 1\<close> and
  probabilities summing to at least 1 it returns. With non-negative probabilities and
  \<open>0 \<le> u\<close> it raises exactly when the whole sum is at most \<open>u\<close>.
\<close>

lemma select_from_dist_exact_arithmetic:
  "select_from_dist u d
     = (case first_exceeding u d of
          None \<Rightarrow> Inl RuntimeError
        | Some k \<Rightarrow> Inr (fst (d ! k)))
   \<and> (\<forall>x. select_from_dist u d = Inr x \<longleftrightarrow>
         (\<exists>k<length d. x = fst (d ! k) \<and> u < cumulative d (Suc k)
            \<and> (\<forall>j<k. \<not> u < cumulative d (Suc j))))
   \<and> (select_from_dist u d = Inl RuntimeError \<longleftrightarrow>
         (\<forall>k<length d. \<not> u < cumulative d (Suc k)))
   \<and> (u < 1 \<and> 1 \<le> sum_list (map snd d) \<longrightarrow> (\<exists>x. select_from_dist u d = Inr x))
   \<and> ((\<forall>pr \<in> snd ` set d. 0 \<le> pr) \<and> 0 \<le> u \<longrightarrow>
         (select_from_dist u d = Inl RuntimeError \<longleftrightarrow> sum_list (map snd d) \<le> u))"
proof (intro conjI allI impI)
  show spec: "select_from_dist u d
     = (case first_exceeding u d of
          None \<Rightarrow> Inl RuntimeError
        | Some k \<Rightarrow> Inr (fst (d ! k)))"
    by (rule select_from_dist_find)
  show "select_from_dist u d = Inr x \<longleftrightarrow>
         (\<exists>k<length d. x = fst (d ! k) \<and> u < cumulative d (Suc k)
            \<and> (\<forall>j<k. \<not> u < cumulative d (Suc j)))" for x
  proof -
    have "select_from_dist u d = Inr x \<longleftrightarrow>
            (\<exists>k. first_exceeding u d = Some k \<and> x = fst (d ! k))"
      unfolding spec by (auto split: option.splits)
    also have "\<dots> \<longleftrightarrow> (\<exists>k<length d. x = fst (d ! k) \<and> u < cumulative d (Suc k)
            \<and> (\<forall>j<k. \<not> u < cumulative d (Suc j)))"
      unfolding first_exceeding_Some by blast
    finally show ?thesis .
  qed
  show raise: "select_from_dist u d = Inl RuntimeError \<longleftrightarrow>
         (\<forall>k<length d. \<not> u < cumulative d (Suc k))"
    unfolding spec first_exceeding_None[symmetric] by (simp split: option.splits)
  show "\<exists>x. select_from_dist u d = Inr x" if h: "u < 1 \<and> 1 \<le> sum_list (map snd d)"
  proof -
    from h have "d \<noteq> []" by auto
    then obtain n where n: "length d = Suc n" by (cases d) auto
    have "u < cumulative d (Suc n)"
      using h cumulative_all[of d] n by simp
    then have "\<not> (\<forall>k<length d. \<not> u < cumulative d (Suc k))"
      using n by auto
    then have "first_exceeding u d \<noteq> None"
      by (simp add: first_exceeding_None)
    then obtain k where "first_exceeding u d = Some k" by auto
    then show ?thesis
      unfolding spec by simp
  qed
  show "select_from_dist u d = Inl RuntimeError \<longleftrightarrow> sum_list (map snd d) \<le> u"
    if h: "(\<forall>pr \<in> snd ` set d. 0 \<le> pr) \<and> 0 \<le> u"
  proof
    assume r: "select_from_dist u d = Inl RuntimeError"
    show "sum_list (map snd d) \<le> u"
    proof (cases d)
      case Nil
      then show ?thesis using h by simp
    next
      case (Cons a rest)
      then have "length d = Suc (length rest)" by simp
      with r raise have "\<not> u < cumulative d (length d)" by auto
      then show ?thesis by (simp add: cumulative_all)
    qed
  next
    assume le: "sum_list (map snd d) \<le> u"
    have "\<not> u < cumulative d (Suc k)" for k
      using cumulative_le_total[of d "Suc k"] h le by auto
    then show "select_from_dist u d = Inl RuntimeError"
      using raise by simp
  qed
qed

text \<open>The doubles that the literals 0.06, 0.18 and 0.76 denote.\<close>

lemma fl_006: "fl 0.06 = Finite (1080863910568919 / 18014398509481984)"
  by (simp add: fl_eval[of "- 5"] fl_steps)

lemma fl_018: "fl 0.18 = Finite (3242591731706757 / 18014398509481984)"
  by (simp add: fl_eval[of "- 3"] fl_steps)

lemma fl_076: "fl 0.76 = Finite (3422735716801577 / 4503599627370496)"
  by (simp add: fl_eval[of "- 1"] fl_steps)

text \<open>
  Claim C7 does not hold of the code on doubles. The claim is what the function is written
  to do (its error names an invalid distribution), and in exact arithmetic the walk does
  it; but \<^verbatim>\<open>ranreal -= prob\<close> rounds. On the table \<^verbatim>\<open>{"A": 0.06, "B": 0.18, "C": 0.76}\<close>, whose
  three doubles are positive and sum to exactly 1, and the largest value
  \<^verbatim>\<open>random.random()\<close> can return, \<^verbatim>\<open>u = 1 - 2^-53\<close>, the remainder goes
  \<open>u\<close>, \<open>0.94\<close>, \<open>0.76\<close>; the last test \<open>0.76 < 0.76\<close> fails and the function raises
  \<^verbatim>\<open>RuntimeError\<close>. The third cumulative probability, 1, exceeds \<open>u\<close>: the claim, and
  the walk in exact arithmetic, give \<open>C\<close>.
\<close>

theorem select_from_dist_double_raises:
  "fl 0.06 = Finite (1080863910568919 / 18014398509481984)
   \<and> fl 0.18 = Finite (3242591731706757 / 18014398509481984)
   \<and> fl 0.76 = Finite (3422735716801577 / 4503599627370496)
   \<and> (1080863910568919 / 18014398509481984 + 3242591731706757 / 18014398509481984
        + 3422735716801577 / 4503599627370496 :: real) = 1
   \<and> fl (1 - 1 / 2 ^ 53) = Finite (1 - 1 / 2 ^ 53)
   \<and> (0::real) \<le> 1 - 1 / 2 ^ 53 \<and> (1 - 1 / 2 ^ 53 :: real) < 1
   \<and> select_from_dist_double (Finite (1 - 1 / 2 ^ 53))
         [(''A'', fl 0.06), (''B'', fl 0.18), (''C'', fl 0.76)] = Inl RuntimeError
   \<and> select_from_dist (1 - 1 / 2 ^ 53)
         [(''A'', 1080863910568919 / 18014398509481984),
          (''B'', 3242591731706757 / 18014398509481984),
          (''C'', 3422735716801577 / 4503599627370496)] = Inr ''C''"
proof -
  have u: "fl (1 - 1 / 2 ^ 53) = Finite (1 - 1 / 2 ^ 53)"
    by (simp add: fl_eval[of "- 1"] fl_steps)
  have raises: "select_from_dist_double (Finite (1 - 1 / 2 ^ 53))
         [(''A'', fl 0.06), (''B'', fl 0.18), (''C'', fl 0.76)] = Inl RuntimeError"
    unfolding fl_006 fl_018 fl_076
    by (simp add: fsub_def fl_eval[of "- 1"] fl_steps)
  have exact: "select_from_dist (1 - 1 / 2 ^ 53)
         [(''A'', 1080863910568919 / 18014398509481984),
          (''B'', 3242591731706757 / 18014398509481984),
          (''C'', 3422735716801577 / 4503599627370496)] = Inr ''C''"
    by simp
  show ?thesis
    by (intro conjI fl_006 fl_018 fl_076 u raises exact) simp_all
qed

section \<open>The simulation loop\<close>

text \<open>
  Claim C9, as stated, fails: the source has no configuration check at all. With a step
  count of zero, or a negative one, \<^verbatim>\<open>range(steps)\<close> is empty and \<^verbatim>\<open>run\<close> returns normally
  with the simulation untouched.
\<close>

theorem run_zero_steps_returns:
  "run 0 (constant_source \<lparr>random_random = 0, random_gauss = 0\<rparr>) main_simulation
     = Inr main_simulation
   \<and> run (- 1) (constant_source \<lparr>random_random = 0, random_gauss = 0\<rparr>) main_simulation
     = Inr main_simulation"
  by (simp add: run_def)

text \<open>
  Claim C9, amended. No input is rejected as an invalid configuration: for every step count
  that is zero or negative, every source and every simulation, \<^verbatim>\<open>run\<close> executes no step,
  raises nothing and returns the simulation as it was; and the controllers store whatever
  threshold they are given.
\<close>

theorem run_nonpositive_steps:
  "steps \<le> 0 \<Longrightarrow>
     run steps rs sim = Inr sim
     \<and> threshold (InventoryMonitoringController_init t) = t
     \<and> discount_threshold (PriceMonitoringController_init dt) = dt"
  by (simp add: run_def InventoryMonitoringController_init_def
      PriceMonitoringController_init_def)

theorem run_nonpositive_steps_witness:
  "(- 3 :: int) \<le> 0
   \<and> run (- 3) (constant_source \<lparr>random_random = 0.5, random_gauss = 0\<rparr>) main_simulation
       = Inr main_simulation
   \<and> threshold (InventoryMonitoringController_init (- 5)) = - 5
   \<and> discount_threshold (PriceMonitoringController_init (- 1)) = - 1"
proof -
  have h: "(- 3 :: int) \<le> 0" by simp
  show ?thesis
    using h run_nonpositive_steps[OF h,
        of "constant_source \<lparr>random_random = 0.5, random_gauss = 0\<rparr>" main_simulation
           "- 5" "- 1"]
    by simp
qed

subsection \<open>One iteration preserves the invariant\<close>

lemma demand_returns: "u < 1 \<Longrightarrow> \<exists>x. select_from_dist u demand_dist = Inr x"
  by (simp add: demand_dist_def)

lemma select_from_dist_error: "select_from_dist u d = Inl e \<Longrightarrow> e = RuntimeError"
  by (induction u d rule: select_from_dist.induct) (auto split: if_splits)

lemma order_returns: "average_price ag \<noteq> 0 \<Longrightarrow> \<exists>t. order ag p pd ls = Inr t"
  by (simp add: order_def Let_def)

lemma select_action_returns:
  assumes "average_price ag + (price p - average_price ag) * 0.1 \<noteq> 0"
  shows "\<exists>tobuy. select_action ag p =
           Inr ([''buy'' \<mapsto> tobuy],
                ag\<lparr>average_price := average_price ag + (price p - average_price ag) * 0.1,
                   total_spent := total_spent ag + real_of_int tobuy * price p,
                   buy_history := buy_history ag @ [tobuy]\<rparr>)"
proof -
  let ?ag1 = "ag\<lparr>average_price := average_price ag + (price p - average_price ag) * 0.1\<rparr>"
  have "average_price ?ag1 \<noteq> 0" using assms by simp
  from order_returns[OF this]
  obtain t where "order ?ag1 p (PriceMonitoringController_monitor (price_controller ?ag1) ?ag1 p)
      (InventoryMonitoringController_monitor (inventory_controller ?ag1) p) = Inr t"
    by blast
  then have "select_action ag p =
           Inr ([''buy'' \<mapsto> t],
                ag\<lparr>average_price := average_price ag + (price p - average_price ag) * 0.1,
                   total_spent := total_spent ag + real_of_int t * price p,
                   buy_history := buy_history ag @ [t]\<rparr>)"
    by (simp add: select_action_def Let_def)
  then show ?thesis ..
qed

lemma smoothing_bound:
  fixes avg pr :: real
  assumes "100 \<le> avg" and "100 \<le> pr"
  shows "100 \<le> avg + (pr - avg) * 0.1"
  using assms by (simp add: field_simps)

lemma do_action_returns:
  assumes "random_random d < 1"
  shows "\<exists>p1 env1. do_action d env act = Inr (p1, env1)"
proof -
  from demand_returns[OF assms]
  obtain x where "select_from_dist (random_random d) demand_dist = Inr x" by blast
  then show ?thesis
    by (simp add: do_action_def Let_def)
qed

lemma do_action_Inr:
  assumes "do_action d env act = Inr (p1, env1)"
  shows "price_history env1 = price_history env @ [price p1]
         \<and> stock_history env1 = stock_history env @ [stock p1]
         \<and> 0 \<le> stock p1 \<and> 100 \<le> price p1"
  using assms by (auto simp: do_action_def Let_def split: sum.splits)

lemma do_action_error: "do_action d env act = Inl e \<Longrightarrow> e = RuntimeError"
  by (auto simp: do_action_def Let_def split: sum.splits dest: select_from_dist_error)

lemma spent_sum_snoc:
  fixes bh :: "int list" and ph :: "real list"
  assumes "length ph = Suc (length bh)"
  shows "(\<Sum>i<length (bh @ [b]). real_of_int ((bh @ [b]) ! i) * (ph @ [x]) ! i)
           = (\<Sum>i<length bh. real_of_int (bh ! i) * ph ! i) + real_of_int b * last ph"
proof -
  have ne: "ph \<noteq> []" using assms by auto
  have "(\<Sum>i<length bh. real_of_int ((bh @ [b]) ! i) * (ph @ [x]) ! i)
          = (\<Sum>i<length bh. real_of_int (bh ! i) * ph ! i)"
    using assms by (intro sum.cong) (simp_all add: nth_append)
  moreover have "(ph @ [x]) ! length bh = last ph"
    using assms ne by (simp add: nth_append last_conv_nth)
  ultimately show ?thesis by simp
qed

lemma sim_inv_select_action:
  assumes inv: "sim_inv sim"
  shows "\<exists>tobuy. select_action (agent sim) (percept sim) =
           Inr ([''buy'' \<mapsto> tobuy],
                (agent sim)\<lparr>average_price := average_price (agent sim)
                     + (price (percept sim) - average_price (agent sim)) * 0.1,
                   total_spent := total_spent (agent sim)
                     + real_of_int tobuy * price (percept sim),
                   buy_history := buy_history (agent sim) @ [tobuy]\<rparr>)
         \<and> 100 \<le> average_price (agent sim)
                     + (price (percept sim) - average_price (agent sim)) * 0.1"
proof -
  let ?ag = "agent sim" and ?env = "environment sim" and ?p = "percept sim"
  have ne: "price_history ?env \<noteq> []" using inv by (auto simp: sim_inv_def)
  have pp: "100 \<le> price ?p" using inv ne by (simp add: sim_inv_def)
  have avg: "100 \<le> average_price ?ag" using inv by (simp add: sim_inv_def)
  have upd: "100 \<le> average_price ?ag + (price ?p - average_price ?ag) * 0.1"
    using avg pp by (rule smoothing_bound)
  then have "average_price ?ag + (price ?p - average_price ?ag) * 0.1 \<noteq> 0" by simp
  from select_action_returns[OF this] upd show ?thesis by blast
qed

lemma run_body_preserves:
  assumes inv: "sim_inv sim" and rb: "run_body d sim = Inr sim1"
  shows "sim_inv sim1
           \<and> (\<exists>b. buy_history (agent sim1) = buy_history (agent sim) @ [b])
           \<and> (\<exists>x. price_history (environment sim1) = price_history (environment sim) @ [x])
           \<and> (\<exists>x. stock_history (environment sim1) = stock_history (environment sim) @ [x])"
proof -
  let ?ag = "agent sim" and ?env = "environment sim" and ?p = "percept sim"
  from sim_inv_select_action[OF inv]
  obtain tobuy where sa: "select_action ?ag ?p =
           Inr ([''buy'' \<mapsto> tobuy],
                ?ag\<lparr>average_price := average_price ?ag + (price ?p - average_price ?ag) * 0.1,
                   total_spent := total_spent ?ag + real_of_int tobuy * price ?p,
                   buy_history := buy_history ?ag @ [tobuy]\<rparr>)"
    and upd: "100 \<le> average_price ?ag + (price ?p - average_price ?ag) * 0.1" by blast
  let ?ag1 = "?ag\<lparr>average_price := average_price ?ag + (price ?p - average_price ?ag) * 0.1,
                   total_spent := total_spent ?ag + real_of_int tobuy * price ?p,
                   buy_history := buy_history ?ag @ [tobuy]\<rparr>"
  from rb obtain p1 env1 where da: "do_action d ?env [''buy'' \<mapsto> tobuy] = Inr (p1, env1)"
    and sim1: "sim1 = \<lparr>agent = ?ag1, environment = env1, percept = p1\<rparr>"
    by (auto simp: run_body_def sa split: sum.splits)
  from do_action_Inr[OF da]
  have ph: "price_history env1 = price_history ?env @ [price p1]"
    and sh: "stock_history env1 = stock_history ?env @ [stock p1]"
    and s0: "0 \<le> stock p1" and p100: "100 \<le> price p1" by simp_all
  have len: "length (price_history ?env) = Suc (length (buy_history ?ag))"
    using inv by (simp add: sim_inv_def)
  have tot: "total_spent ?ag + real_of_int tobuy * price ?p
       = (\<Sum>i<length (buy_history ?ag @ [tobuy]).
               real_of_int ((buy_history ?ag @ [tobuy]) ! i) * (price_history ?env @ [price p1]) ! i)"
    unfolding spent_sum_snoc[OF len] using inv by (simp add: sim_inv_def)
  have "sim_inv sim1"
    unfolding sim_inv_def sim1
  proof (intro conjI)
    let ?s = "\<lparr>agent = ?ag1, environment = env1, percept = p1\<rparr>"
    show "total_spent (agent ?s)
          = (\<Sum>i<length (buy_history (agent ?s)).
               real_of_int (buy_history (agent ?s) ! i) * price_history (environment ?s) ! i)"
      using tot by (simp add: ph)
  qed (use inv upd s0 p100 in \<open>auto simp: sim_inv_def ph sh\<close>)
  then show ?thesis
    by (simp add: sim1 ph sh)
qed

lemma run_body_returns:
  assumes inv: "sim_inv sim" and d: "random_random d < 1"
  shows "\<exists>sim1. run_body d sim = Inr sim1"
proof -
  from sim_inv_select_action[OF inv]
  obtain act ag1 where sa: "select_action (agent sim) (percept sim) = Inr (act, ag1)" by blast
  from do_action_returns[OF d, of "environment sim" act]
  obtain p1 env1 where "do_action d (environment sim) act = Inr (p1, env1)" by blast
  then show ?thesis
    by (simp add: run_body_def sa)
qed

lemma run_body_error:
  assumes inv: "sim_inv sim" and e: "run_body d sim = Inl e"
  shows "e = RuntimeError"
proof -
  from sim_inv_select_action[OF inv]
  obtain act ag1 where sa: "select_action (agent sim) (percept sim) = Inr (act, ag1)" by blast
  from e have "do_action d (environment sim) act = Inl e"
    by (auto simp: run_body_def sa split: sum.splits prod.splits)
  then show ?thesis by (rule do_action_error)
qed

lemma run_loop_inv:
  assumes "sim_inv sim" and "\<forall>i. random_random (rs i) < 1"
  shows "\<exists>sim1. run_loop n rs sim = Inr sim1 \<and> sim_inv sim1
           \<and> length (buy_history (agent sim1)) = length (buy_history (agent sim)) + n"
  using assms
proof (induction n arbitrary: rs sim)
  case 0
  then show ?case by simp
next
  case (Suc n)
  from run_body_returns[OF Suc.prems(1), of "rs 0"] Suc.prems(2)
  obtain sim1 where rb: "run_body (rs 0) sim = Inr sim1" by blast
  from run_body_preserves[OF Suc.prems(1) rb]
  have inv1: "sim_inv sim1"
    and bh: "\<exists>b. buy_history (agent sim1) = buy_history (agent sim) @ [b]" by simp_all
  have "\<forall>i. random_random (rs (Suc i)) < 1" using Suc.prems(2) by simp
  from Suc.IH[OF inv1 this]
  obtain sim2 where "run_loop n (\<lambda>i. rs (Suc i)) sim1 = Inr sim2" and "sim_inv sim2"
    and "length (buy_history (agent sim2)) = length (buy_history (agent sim1)) + n" by blast
  with rb bh show ?case by auto
qed

lemma run_loop_no_zero_division:
  assumes "sim_inv sim"
  shows "run_loop n rs sim \<noteq> Inl ZeroDivisionError"
  using assms
proof (induction n arbitrary: rs sim)
  case 0
  then show ?case by simp
next
  case (Suc n)
  show ?case
  proof (cases "run_body (rs 0) sim")
    case (Inl e)
    with run_body_error[OF Suc.prems] have "e = RuntimeError" by simp
    with Inl show ?thesis by simp
  next
    case (Inr sim1)
    from run_body_preserves[OF Suc.prems Inr] have "sim_inv sim1" by simp
    then show ?thesis using Inr Suc.IH by simp
  qed
qed

lemma run_loop_Suc_end:
  "run_loop (Suc n) rs sim
     = (case run_loop n rs sim of Inl e \<Rightarrow> Inl e | Inr s \<Rightarrow> run_body (rs n) s)"
proof (induction n arbitrary: rs sim)
  case 0
  show ?case by (simp split: sum.splits)
next
  case (Suc n)
  show ?case
  proof (cases "run_body (rs 0) sim")
    case (Inl e)
    then show ?thesis by simp
  next
    case (Inr sim1)
    have "run_loop (Suc (Suc n)) rs sim = run_loop (Suc n) (\<lambda>i. rs (Suc i)) sim1"
      using Inr by simp
    also have "\<dots> = (case run_loop n (\<lambda>i. rs (Suc i)) sim1 of
                        Inl e \<Rightarrow> Inl e | Inr s \<Rightarrow> run_body (rs (Suc n)) s)"
      by (rule Suc.IH)
    also have "run_loop n (\<lambda>i. rs (Suc i)) sim1 = run_loop (Suc n) rs sim"
      using Inr by simp
    finally show ?thesis .
  qed
qed

lemma sim_inv_main: "sim_inv main_simulation"
  by (simp add: sim_inv_def main_simulation_def Simulation_init_def SmartphoneAgent_init_def
      SmartphoneEnvironment_init_def initial_percept_def)

lemma valid_source_lt: "valid_source rs \<Longrightarrow> \<forall>i. random_random (rs i) < 1"
  by (simp add: valid_source_def)

lemma run_main_inv:
  assumes "valid_source rs"
  shows "\<exists>sim. run steps rs main_simulation = Inr sim \<and> sim_inv sim
           \<and> length (buy_history (agent sim)) = nat steps"
proof -
  from run_loop_inv[OF sim_inv_main valid_source_lt[OF assms], of "nat steps"]
  show ?thesis
    by (simp add: run_def main_simulation_def Simulation_init_def SmartphoneAgent_init_def)
qed

subsection \<open>The concrete run, evaluated\<close>

lemmas step_defs =
  run_body_def select_action_def do_action_def falling_draw_def
  SmartphoneAgent_init_def price_monitor_iff InventoryMonitoringController_monitor_def
  PriceMonitoringController_init_def InventoryMonitoringController_init_def
  order_def py_int_def demand_dist_def price_delta_def Let_def

lemma run_body_falling_1: "run_body falling_draw main_simulation = Inr falling_1"
  by (simp add: step_defs falling_1_def main_simulation_def Simulation_init_def
      SmartphoneEnvironment_init_def initial_percept_def)

lemma run_body_falling_2: "run_body falling_draw falling_1 = Inr falling_2"
  by (simp add: step_defs falling_1_def falling_2_def)

lemma run_body_falling_3: "run_body falling_draw falling_2 = Inr falling_3"
  by (simp add: step_defs falling_2_def falling_3_def)

lemma run_falling:
  "run 2 (constant_source falling_draw) main_simulation = Inr falling_2"
  "run 3 (constant_source falling_draw) main_simulation = Inr falling_3"
  by (simp_all add: run_def numeral_2_eq_2 numeral_3_eq_3 constant_source_def
      run_body_falling_1 run_body_falling_2 run_body_falling_3)

lemma falling_source_valid: "valid_source (constant_source falling_draw)"
  by (simp add: valid_source_def constant_source_def falling_draw_def)

lemma falling_3_fields:
  "buy_history (agent falling_3) = [0, 21, 26]"
  "price_history (environment falling_3) = [600, 320, 140, 100]"
  "stock_history (environment falling_3) = [50, 43, 57, 76]"
  "average_price (agent falling_3) = 528.8"
  "price (percept falling_3) = 100"
  by (simp_all add: falling_3_def)

section \<open>Properties of a whole run\<close>

text \<open>
  Claim C2. From the program's initial state, with every draw of \<^verbatim>\<open>random.random()\<close> in
  \<open>[0, 1)\<close> and \<open>steps \<ge> 0\<close>, \<^verbatim>\<open>run(steps)\<close> returns, with \<open>steps\<close> decisions and
  \<open>steps + 1\<close> entries in each environment history. Moreover every single iteration
  \<open>k < steps\<close> of the loop takes the state after \<open>k\<close> steps to the state after \<open>k + 1\<close>
  steps by appending exactly one entry to each of the three histories, and afterwards
  both environment histories are one longer than the purchase history.
\<close>

theorem history_lengths:
  assumes "valid_source rs" and "0 \<le> steps"
  shows "\<exists>sim. run steps rs main_simulation = Inr sim
           \<and> int (length (buy_history (agent sim))) = steps
           \<and> int (length (price_history (environment sim))) = steps + 1
           \<and> int (length (stock_history (environment sim))) = steps + 1
           \<and> (\<forall>k<nat steps. \<exists>s0 s1.
                 run (int k) rs main_simulation = Inr s0
                 \<and> run_body (rs k) s0 = Inr s1
                 \<and> run (int k + 1) rs main_simulation = Inr s1
                 \<and> (\<exists>b. buy_history (agent s1) = buy_history (agent s0) @ [b])
                 \<and> (\<exists>x. price_history (environment s1)
                          = price_history (environment s0) @ [x])
                 \<and> (\<exists>x. stock_history (environment s1)
                          = stock_history (environment s0) @ [x])
                 \<and> length (price_history (environment s1))
                      = length (buy_history (agent s1)) + 1
                 \<and> length (stock_history (environment s1))
                      = length (buy_history (agent s1)) + 1)"
proof -
  from run_main_inv[OF assms(1), of steps]
  obtain sim where r: "run steps rs main_simulation = Inr sim" and inv: "sim_inv sim"
    and len: "length (buy_history (agent sim)) = nat steps" by blast
  have each: "\<exists>s0 s1.
                 run (int k) rs main_simulation = Inr s0
                 \<and> run_body (rs k) s0 = Inr s1
                 \<and> run (int k + 1) rs main_simulation = Inr s1
                 \<and> (\<exists>b. buy_history (agent s1) = buy_history (agent s0) @ [b])
                 \<and> (\<exists>x. price_history (environment s1)
                          = price_history (environment s0) @ [x])
                 \<and> (\<exists>x. stock_history (environment s1)
                          = stock_history (environment s0) @ [x])
                 \<and> length (price_history (environment s1))
                      = length (buy_history (agent s1)) + 1
                 \<and> length (stock_history (environment s1))
                      = length (buy_history (agent s1)) + 1" for k
  proof -
    from run_main_inv[OF assms(1), of "int k"]
    obtain s0 where r0: "run (int k) rs main_simulation = Inr s0" and i0: "sim_inv s0"
      by blast
    from run_main_inv[OF assms(1), of "int k + 1"]
    obtain s1 where r1: "run (int k + 1) rs main_simulation = Inr s1" by blast
    have "nat (int k + 1) = Suc k" by simp
    then have "run (int k + 1) rs main_simulation
                 = (case run (int k) rs main_simulation of
                      Inl e \<Rightarrow> Inl e | Inr s \<Rightarrow> run_body (rs k) s)"
      unfolding run_def by (simp only: run_loop_Suc_end nat_int)
    with r0 r1 have rb: "run_body (rs k) s0 = Inr s1" by simp
    from run_body_preserves[OF i0 rb] r0 r1 rb show ?thesis
      by (auto simp: sim_inv_def)
  qed
  from r inv len assms(2) each show ?thesis
    by (auto simp: sim_inv_def)
qed

theorem history_lengths_witness:
  "valid_source (constant_source falling_draw)
   \<and> (0::int) \<le> 3
   \<and> run 3 (constant_source falling_draw) main_simulation = Inr falling_3
   \<and> length (buy_history (agent falling_3)) = 3
   \<and> length (price_history (environment falling_3)) = 4
   \<and> length (stock_history (environment falling_3)) = 4
   \<and> run 2 (constant_source falling_draw) main_simulation = Inr falling_2
   \<and> run_body (constant_source falling_draw 2) falling_2 = Inr falling_3
   \<and> (\<exists>b. buy_history (agent falling_3) = buy_history (agent falling_2) @ [b])"
proof -
  have nn: "(0::int) \<le> 3" by simp
  from history_lengths[OF falling_source_valid nn]
  have bl: "int (length (buy_history (agent falling_3))) = 3"
    and pl: "int (length (price_history (environment falling_3))) = 3 + 1"
    and sl: "int (length (stock_history (environment falling_3))) = 3 + 1"
    and each: "\<forall>k<nat 3. \<exists>s0 s1.
                 run (int k) (constant_source falling_draw) main_simulation = Inr s0
                 \<and> run_body (constant_source falling_draw k) s0 = Inr s1
                 \<and> run (int k + 1) (constant_source falling_draw) main_simulation = Inr s1
                 \<and> (\<exists>b. buy_history (agent s1) = buy_history (agent s0) @ [b])
                 \<and> (\<exists>x. price_history (environment s1)
                          = price_history (environment s0) @ [x])
                 \<and> (\<exists>x. stock_history (environment s1)
                          = stock_history (environment s0) @ [x])
                 \<and> length (price_history (environment s1))
                      = length (buy_history (agent s1)) + 1
                 \<and> length (stock_history (environment s1))
                      = length (buy_history (agent s1)) + 1"
    by (simp_all add: run_falling)
  have "(2::nat) < nat 3" by simp
  with each obtain s0 s1
    where r0: "run (int 2) (constant_source falling_draw) main_simulation = Inr s0"
    and rb: "run_body (constant_source falling_draw 2) s0 = Inr s1"
    and r1: "run (int 2 + 1) (constant_source falling_draw) main_simulation = Inr s1"
    and app: "\<exists>b. buy_history (agent s1) = buy_history (agent s0) @ [b]" by blast
  from r0 have s0: "s0 = falling_2" by (simp add: run_falling)
  from r1 have s1: "s1 = falling_3" by (simp add: run_falling)
  from bl pl sl have "length (buy_history (agent falling_3)) = 3"
    "length (price_history (environment falling_3)) = 4"
    "length (stock_history (environment falling_3)) = 4" by simp_all
  then show ?thesis
    using falling_source_valid nn run_falling rb app unfolding s0 s1 by blast
qed

text \<open>
  Claim C3. For a run of any length from the program's initial state (draws in
  \<open>[0, 1)\<close>), every entry of the stock history is at least 0 and every entry of the price
  history at least the floor 100, the seeded entries 50 and 600 included.
\<close>

theorem history_bounds:
  assumes "valid_source rs"
  shows "\<exists>sim. run steps rs main_simulation = Inr sim
           \<and> (\<forall>i<length (stock_history (environment sim)).
                 0 \<le> stock_history (environment sim) ! i)
           \<and> (\<forall>i<length (price_history (environment sim)).
                 100 \<le> price_history (environment sim) ! i)"
proof -
  from run_main_inv[OF assms, of steps]
  obtain sim where "run steps rs main_simulation = Inr sim" and "sim_inv sim" by blast
  then show ?thesis
    by (auto simp: sim_inv_def)
qed

theorem history_bounds_witness:
  "valid_source (constant_source falling_draw)
   \<and> run 3 (constant_source falling_draw) main_simulation = Inr falling_3
   \<and> stock_history (environment falling_3) = [50, 43, 57, 76]
   \<and> price_history (environment falling_3) = [600, 320, 140, 100]
   \<and> 0 \<le> stock_history (environment falling_3) ! 3
   \<and> 100 \<le> price_history (environment falling_3) ! 3"
proof -
  from history_bounds[OF falling_source_valid, of 3]
  have s: "\<forall>i<length (stock_history (environment falling_3)).
                 0 \<le> stock_history (environment falling_3) ! i"
    and p: "\<forall>i<length (price_history (environment falling_3)).
                 100 \<le> price_history (environment falling_3) ! i"
    by (simp_all add: run_falling)
  have "(3::nat) < length (stock_history (environment falling_3))"
    and "(3::nat) < length (price_history (environment falling_3))"
    by (simp_all add: falling_3_fields)
  with s p have "0 \<le> stock_history (environment falling_3) ! 3"
    and "100 \<le> price_history (environment falling_3) ! 3" by blast+
  then show ?thesis
    using falling_source_valid run_falling(2) falling_3_fields(2,3) by blast
qed

text \<open>
  Claim C1. After \<^verbatim>\<open>run(steps)\<close> from the program's initial state (draws in \<open>[0, 1)\<close>) the
  money spent is the sum over \<open>i < steps\<close> of the quantity bought at step \<open>i\<close> times the
  price snapshot of index \<open>i\<close>, the price the decision saw. (For a negative step count
  \<^verbatim>\<open>range(steps)\<close> and the sum are both empty.)
\<close>

theorem total_spent_reconstructable:
  assumes "valid_source rs"
  shows "\<exists>sim. run steps rs main_simulation = Inr sim
           \<and> total_spent (agent sim)
               = (\<Sum>i<nat steps. real_of_int (buy_history (agent sim) ! i)
                                   * price_history (environment sim) ! i)"
proof -
  from run_main_inv[OF assms, of steps]
  obtain sim where "run steps rs main_simulation = Inr sim" and "sim_inv sim"
    and "length (buy_history (agent sim)) = nat steps" by blast
  then show ?thesis
    by (auto simp: sim_inv_def)
qed

theorem total_spent_reconstructable_witness:
  "valid_source (constant_source falling_draw)
   \<and> run 3 (constant_source falling_draw) main_simulation = Inr falling_3
   \<and> buy_history (agent falling_3) = [0, 21, 26]
   \<and> price_history (environment falling_3) = [600, 320, 140, 100]
   \<and> total_spent (agent falling_3) = 0 * 600 + 21 * 320 + 26 * 140"
proof -
  from total_spent_reconstructable[OF falling_source_valid, of 3]
  have "total_spent (agent falling_3)
               = (\<Sum>i<nat 3. real_of_int (buy_history (agent falling_3) ! i)
                                   * price_history (environment falling_3) ! i)"
    by (simp add: run_falling)
  then have "total_spent (agent falling_3) = 0 * 600 + 21 * 320 + 26 * 140"
    by (simp add: falling_3_fields numeral_3_eq_3)
  then show ?thesis
    using falling_source_valid run_falling(2) falling_3_fields(1,2) by blast
qed

text \<open>
  Claim C10. A run from the program's initial state never raises
  \<^verbatim>\<open>ZeroDivisionError\<close>, whatever the draws are. With draws in \<open>[0, 1)\<close> it returns, the
  running average and the pending percept price are at least 100, and the next decision
  again succeeds and leaves an average of at least 100: the average that
  \<^verbatim>\<open>order\<close> and the price monitor use is never zero.
\<close>

theorem average_price_above_floor:
  "run steps rs main_simulation \<noteq> Inl ZeroDivisionError
   \<and> (valid_source rs \<longrightarrow>
        (\<exists>sim. run steps rs main_simulation = Inr sim
           \<and> 100 \<le> average_price (agent sim)
           \<and> 100 \<le> price (percept sim)
           \<and> (\<exists>action ag1. select_action (agent sim) (percept sim) = Inr (action, ag1)
                 \<and> 100 \<le> average_price ag1)))"
proof (intro conjI impI)
  show "run steps rs main_simulation \<noteq> Inl ZeroDivisionError"
    unfolding run_def by (rule run_loop_no_zero_division[OF sim_inv_main])
  assume "valid_source rs"
  from run_main_inv[OF this, of steps]
  obtain sim where r: "run steps rs main_simulation = Inr sim" and inv: "sim_inv sim" by blast
  have ne: "price_history (environment sim) \<noteq> []" using inv by (auto simp: sim_inv_def)
  have pp: "100 \<le> price (percept sim)" using inv ne by (simp add: sim_inv_def)
  from sim_inv_select_action[OF inv]
  have "\<exists>action ag1. select_action (agent sim) (percept sim) = Inr (action, ag1)
                 \<and> 100 \<le> average_price ag1"
    by auto
  with r inv pp
  show "\<exists>sim. run steps rs main_simulation = Inr sim
           \<and> 100 \<le> average_price (agent sim)
           \<and> 100 \<le> price (percept sim)
           \<and> (\<exists>action ag1. select_action (agent sim) (percept sim) = Inr (action, ag1)
                 \<and> 100 \<le> average_price ag1)"
    by (auto simp: sim_inv_def)
qed

theorem average_price_above_floor_witness:
  "valid_source (constant_source falling_draw)
   \<and> run 3 (constant_source falling_draw) main_simulation = Inr falling_3
   \<and> average_price (agent falling_3) = 528.8
   \<and> price (percept falling_3) = 100
   \<and> 100 \<le> average_price (agent falling_3)
   \<and> (\<exists>action ag1. select_action (agent falling_3) (percept falling_3) = Inr (action, ag1)
         \<and> 100 \<le> average_price ag1)"
proof -
  from average_price_above_floor[of 3 "constant_source falling_draw"] falling_source_valid
  have "100 \<le> average_price (agent falling_3)
        \<and> (\<exists>action ag1. select_action (agent falling_3) (percept falling_3) = Inr (action, ag1)
              \<and> 100 \<le> average_price ag1)"
    by (simp add: run_falling)
  then show ?thesis
    using falling_source_valid run_falling(2) falling_3_fields(4,5) by blast
qed

end
